theory Spec2Isabelle
  imports Complex_Main "HOL-Library.Multiset"
begin

section \<open>Data model\<close>

text \<open>
  The NDK class (relay pool, subscriptions, fetch orchestration) and the cashu wallet's
  lightning payment path, embedded as state-passing functions. JavaScript objects are
  records; a promise is a three-valued outcome; an emitter is the log of what was emitted.
  Collaborators whose code is not part of the sources (the event's methods, the relay pool,
  the subscription utilities, the mint) are parameters of the functions that call them.
\<close>

datatype 'a promise = Pending | Resolved 'a | Rejected string

type_synonym NDKTag = "string list"

text \<open>
  An event as the orchestration code reads it. \<open>created_at\<close> is read through the source's
  non-null assertion (\<open>created_at!\<close>), so it is a number here. \<open>ndk\<close> is the instance
  the event is bound to (\<open>event.ndk = this\<close>), instances being told apart by a number.
\<close>

record NDKEvent =
  event_id :: string
  pubkey :: string
  kind :: nat
  created_at :: nat
  tags :: "NDKTag list"
  ndk :: "nat option"

text \<open>
  Modelled from the spec: \<open>NDKEvent.isReplaceable\<close> is not among the sources. The spec
  makes replaceability a property of the event's kind ("some kinds are replaceable"); which
  kinds are is the parameter \<open>rk\<close>.
\<close>

definition isReplaceable :: "(nat \<Rightarrow> bool) \<Rightarrow> NDKEvent \<Rightarrow> bool" where
  "isReplaceable rk e = rk (kind e)"

section \<open>fetchEvent: the promise body\<close>

text \<open>
  The state the closures of \<open>fetchEvent\<close>'s promise share: the candidate
  \<open>fetchedEvent\<close>, the promise itself, whether the progress interval \<open>t\<close> and the
  ten-second timeout \<open>t2\<close> are still armed, and whether \<open>s.start()\<close> and
  \<open>s.stop()\<close> have been called on the subscription.
\<close>

record fetch_state =
  fetchedEvent :: "NDKEvent option"
  result :: "NDKEvent option promise"
  t_armed :: bool
  t2_armed :: bool
  s_started :: bool
  s_stopped :: bool

text \<open>What the subscription and the timers deliver to the closures.\<close>

datatype signal = Event NDKEvent | EventDup NDKEvent | Eose | Timeout | Tick

text \<open>A promise settles once: \<open>resolve\<close> on a settled promise does nothing.\<close>

definition resolve :: "NDKEvent option \<Rightarrow> fetch_state \<Rightarrow> fetch_state" where
  "resolve v st = (if result st = Pending then st\<lparr>result := Resolved v\<rparr> else st)"

text \<open>
  The state when the promise executor returns: subscription created with
  \<open>autoStart = false\<close>, both timers set, handlers registered, \<open>s.start()\<close> called.
\<close>

definition fetch_init :: fetch_state where
  "fetch_init =
     \<lparr>fetchedEvent = None, result = Pending, t_armed = True, t2_armed = True,
      s_started = True, s_stopped = False\<rparr>"

text \<open>
  The handler of \<open>"event"\<close>: a non-replaceable event clears both timers and resolves; a
  replaceable one replaces the candidate when there is none or when it is strictly newer.
\<close>

definition on_event :: "nat \<Rightarrow> (nat \<Rightarrow> bool) \<Rightarrow> NDKEvent \<Rightarrow> fetch_state \<Rightarrow> fetch_state" where
  "on_event this rk ev st =
     (let event = ev\<lparr>ndk := Some this\<rparr> in
      if \<not> isReplaceable rk event then
        resolve (Some event) (st\<lparr>t_armed := False, t2_armed := False\<rparr>)
      else (case fetchedEvent st of
              None \<Rightarrow> st\<lparr>fetchedEvent := Some event\<rparr>
            | Some f \<Rightarrow>
                if created_at f < created_at event then st\<lparr>fetchedEvent := Some event\<rparr>
                else st))"

text \<open>The handler of \<open>"eose"\<close>.\<close>

definition on_eose :: "fetch_state \<Rightarrow> fetch_state" where
  "on_eose st = resolve (fetchedEvent st) (st\<lparr>t_armed := False, t2_armed := False\<rparr>)"

text \<open>
  The callback of \<open>t2\<close>; a cleared timeout never runs its callback. It is the only place
  where \<open>fetchEvent\<close> calls \<open>s.stop()\<close>.
\<close>

definition on_timeout :: "fetch_state \<Rightarrow> fetch_state" where
  "on_timeout st =
     (if t2_armed st then
        resolve (fetchedEvent st) (st\<lparr>t_armed := False, t2_armed := False, s_stopped := True\<rparr>)
      else st)"

text \<open>
  The callback of the interval \<open>t\<close> only logs (it touches neither the candidate nor the
  promise), and \<open>fetchEvent\<close> registers no handler for \<open>"event:dup"\<close>.
\<close>

fun handle :: "nat \<Rightarrow> (nat \<Rightarrow> bool) \<Rightarrow> fetch_state \<Rightarrow> signal \<Rightarrow> fetch_state" where
  "handle this rk st (Event ev) = on_event this rk ev st"
| "handle this rk st Eose = on_eose st"
| "handle this rk st Timeout = on_timeout st"
| "handle this rk st Tick = st"
| "handle this rk st (EventDup ev) = st"

definition fetch_run :: "nat \<Rightarrow> (nat \<Rightarrow> bool) \<Rightarrow> fetch_state \<Rightarrow> signal list \<Rightarrow> fetch_state" where
  "fetch_run this rk st sigs = foldl (handle this rk) st sigs"

section \<open>Relays, pools, filters, subscriptions\<close>

text \<open>\<open>relay_ref\<close> is the identity of the object: every \<open>new\<close> takes a fresh one.\<close>

record NDKRelay =
  relay_ref :: nat
  url :: string
  authPolicy :: "nat option"

record NDKPool =
  pool_name :: string
  relays :: "(string \<times> NDKRelay) list"
  blacklistRelayUrls :: "string list"

datatype NDKRelaySet = RelaySet (set_relays: "NDKRelay list")

record NDKFilter =
  ids :: "string list option"
  authors :: "string list option"
  kinds :: "nat list option"
  since :: "nat option"
  until :: "nat option"
  limit :: "nat option"

record NDKSubscriptionOptions =
  closeOnEose :: "bool option"
  groupable :: "bool option"

text \<open>
  A subscription is what its constructor was given; \<open>start_scheduled\<close> records the
  \<open>setTimeout(() => subscription.start(), 0)\<close> of \<open>subscribe\<close>.
\<close>

record NDKSubscription =
  filters :: "NDKFilter list"
  sub_opts :: "NDKSubscriptionOptions option"
  sub_relaySet :: "NDKRelaySet option"
  start_scheduled :: bool

text \<open>
  A signer: its identity and, when it has a \<open>relays\<close> method, what the promise that
  method returns settles to.
\<close>

record NDKSigner =
  signer_ref :: nat
  signer_relays :: "NDKRelay list promise option"

datatype emission = SignerReady nat | SignerRequired

record NDK =
  ndk_ref :: nat
  explicitRelayUrls :: "string list"
  pool :: NDKPool
  outboxPool :: "NDKPool option"
  signer :: "NDKSigner option"
  autoConnectUserRelays :: bool
  autoFetchUserMutelist :: bool
  clientName :: "string option"
  clientNip89 :: "string option"
  mutedIds :: "(string \<times> string) list"
  asyncSigVerification :: bool
  validationRatio :: real
  subManager :: "NDKSubscription list"
  outboxTracker :: "string list option"
  emitted :: "emission list"
  next_ref :: nat

text \<open>
  The functions the NDK class calls whose code is not among the sources, as parameters:
  the subscription utilities, the relay-set correction, the pool's methods, the event's
  dedup key and the dedup choice, and \<open>JSON.stringify\<close> on an identifier.
  \<open>filterFromId\<close> returns a filter for every string: \<open>fetchEvent\<close> assigns its result to
  a variable of type \<open>NDKFilter\<close>. An omitted \<open>connect\<close> argument of \<open>addRelay\<close> is
  \<open>None\<close>.
\<close>

record collaborators =
  isNip33AValue :: "string \<Rightarrow> bool"
  relaysFromBech32 :: "string \<Rightarrow> NDKRelay list"
  correctRelaySet :: "NDKRelaySet \<Rightarrow> NDKPool \<Rightarrow> NDKRelaySet"
  filterFromId :: "string \<Rightarrow> NDKFilter"
  stringify :: "string \<Rightarrow> string"
  replaceableKind :: "nat \<Rightarrow> bool"
  addRelay :: "NDKRelay \<Rightarrow> bool option \<Rightarrow> NDKPool \<Rightarrow> NDKPool"
  useTemporaryRelay :: "NDKRelay \<Rightarrow> NDKPool \<Rightarrow> NDKPool"
  relayUrl :: "string \<Rightarrow> string"
  newPool :: "string list \<Rightarrow> string list \<Rightarrow> nat \<Rightarrow> NDKPool \<times> nat"
  deduplicationKey :: "NDKEvent \<Rightarrow> string"
  dedupEvent :: "NDKEvent \<Rightarrow> NDKEvent \<Rightarrow> NDKEvent"
  hasAuthorsFilter :: "NDKSubscription \<Rightarrow> bool"

section \<open>The constructor\<close>

record NDKConstructorParams =
  opt_explicitRelayUrls :: "string list option"
  opt_blacklistRelayUrls :: "string list option"
  opt_outboxRelayUrls :: "string list option"
  opt_enableOutboxModel :: "bool option"
  opt_autoConnectUserRelays :: "bool option"
  opt_autoFetchUserMutelist :: "bool option"
  opt_signer :: "NDKSigner option"
  opt_mutedIds :: "(string \<times> string) list option"
  opt_clientName :: "string option"
  opt_clientNip89 :: "string option"
  opt_signatureVerificationWorker :: "nat option"
  opt_validationRatio :: "real option"

definition DEFAULT_OUTBOX_RELAYS :: "string list" where
  "DEFAULT_OUTBOX_RELAYS = [''wss://purplepag.es/'', ''wss://profiles.nos.social/'']"

definition DEFAULT_BLACKLISTED_RELAYS :: "string list" where
  "DEFAULT_BLACKLISTED_RELAYS = [''wss://brb.io/'', ''wss://nostr.mutinywallet.com/'']"

text \<open>
  \<open>a || b\<close> on an optional object or array: objects and arrays are truthy, so only
  \<open>undefined\<close> takes the default. \<open>a ?? b\<close> is the same function on any type.
\<close>

definition js_default :: "'a option \<Rightarrow> 'a \<Rightarrow> 'a" where
  "js_default a b = (case a of None \<Rightarrow> b | Some x \<Rightarrow> x)"

text \<open>
  \<open>a || b\<close> on an optional number: \<open>undefined\<close> and \<open>0\<close> are falsy (so is NaN, which a
  real number cannot be).
\<close>

definition js_or_number :: "real option \<Rightarrow> real \<Rightarrow> real" where
  "js_or_number a b = (case a of None \<Rightarrow> b | Some x \<Rightarrow> if x = 0 then b else x)"

text \<open>
  The setter of \<open>signer\<close>: stores it and emits \<open>signer:ready\<close> when there is one (the
  detached \<open>user()\<close> lookup that follows is not part of the state here).
\<close>

definition set_signer :: "NDKSigner option \<Rightarrow> NDK \<Rightarrow> NDK" where
  "set_signer newSigner n =
     (case newSigner of
        None \<Rightarrow> n\<lparr>signer := None\<rparr>
      | Some s \<Rightarrow> n\<lparr>signer := Some s, emitted := emitted n @ [SignerReady (signer_ref s)]\<rparr>)"

text \<open>
  The constructor, in the order of its assignments; \<open>ref\<close> is the identity of the new
  instance and \<open>heap\<close> the first unused object identity.
\<close>

definition NDK_constructor :: "collaborators \<Rightarrow> nat \<Rightarrow> nat \<Rightarrow> NDKConstructorParams \<Rightarrow> NDK" where
  "NDK_constructor C ref heap opts =
     (let blacklist = js_default (opt_blacklistRelayUrls opts) DEFAULT_BLACKLISTED_RELAYS;
          (p, heap1) = newPool C (js_default (opt_explicitRelayUrls opts) []) blacklist heap;
          (ob, heap2) =
            (if opt_enableOutboxModel opts = Some True then
               (let (q, h) = newPool C (js_default (opt_outboxRelayUrls opts) DEFAULT_OUTBOX_RELAYS)
                                blacklist heap1
                in (Some (q\<lparr>pool_name := ''outbox''\<rparr>), h))
             else (None, heap1));
          n0 = \<lparr>ndk_ref = ref,
                explicitRelayUrls = js_default (opt_explicitRelayUrls opts) [],
                pool = p\<lparr>pool_name := ''main''\<rparr>,
                outboxPool = ob,
                signer = None,
                autoConnectUserRelays = js_default (opt_autoConnectUserRelays opts) True,
                autoFetchUserMutelist = js_default (opt_autoFetchUserMutelist opts) True,
                clientName = opt_clientName opts,
                clientNip89 = opt_clientNip89 opts,
                mutedIds = [],
                asyncSigVerification = False,
                validationRatio = 1,
                subManager = [],
                outboxTracker = (if opt_enableOutboxModel opts = Some True then Some [] else None),
                emitted = [],
                next_ref = heap2\<rparr>;
          n1 = set_signer (opt_signer opts) n0;
          n2 = n1\<lparr>mutedIds := js_default (opt_mutedIds opts) []\<rparr>;
          n3 = n2\<lparr>asyncSigVerification := (opt_signatureVerificationWorker opts \<noteq> None)\<rparr>
      in n3\<lparr>validationRatio := js_or_number (opt_validationRatio opts) 1\<rparr>)"

section \<open>addExplicitRelay, assertSigner, connect\<close>

text \<open>
  \<open>new NDKRelay(url, policy)\<close>: a fresh object; how the relay's constructor derives its
  \<open>url\<close> from the argument is the parameter \<open>relayUrl\<close>.
\<close>

definition new_NDKRelay :: "collaborators \<Rightarrow> string \<Rightarrow> nat option \<Rightarrow> NDK \<Rightarrow> NDKRelay \<times> NDK" where
  "new_NDKRelay C u policy n =
     (\<lparr>relay_ref = next_ref n, url = relayUrl C u, authPolicy = policy\<rparr>,
      n\<lparr>next_ref := Suc (next_ref n)\<rparr>)"

datatype url_or_relay = Url string | Relay NDKRelay

text \<open>
  \<open>addExplicitRelay\<close>: the relay is a new one for a string and the argument otherwise; it is
  handed to the pool's \<open>addRelay\<close>, its url is pushed on \<open>explicitRelayUrls\<close>, and the
  local \<open>relay\<close> is returned (what \<open>addRelay\<close> returns is not used).
\<close>

definition addExplicitRelay ::
  "collaborators \<Rightarrow> url_or_relay \<Rightarrow> nat option \<Rightarrow> bool \<Rightarrow> NDK \<Rightarrow> NDKRelay \<times> NDK" where
  "addExplicitRelay C urlOrRelay relayAuthPolicy connect n =
     (let (relay, n1) =
            (case urlOrRelay of
               Url u \<Rightarrow> new_NDKRelay C u relayAuthPolicy n
             | Relay r \<Rightarrow> (r, n));
          n2 = n1\<lparr>pool := addRelay C relay (Some connect) (pool n1)\<rparr>;
          n3 = n2\<lparr>explicitRelayUrls := explicitRelayUrls n2 @ [url relay]\<rparr>
      in (relay, n3))"

text \<open>
  Modelled from the spec: \<open>NDKPool.addRelay\<close> is not among the sources. The spec has it
  register the relay or reuse the one the pool already holds for that URL, so the first
  instance registered for a URL stays the pool's instance.
\<close>

definition pool_addRelay :: "NDKRelay \<Rightarrow> bool option \<Rightarrow> NDKPool \<Rightarrow> NDKPool" where
  "pool_addRelay relay connect p =
     (case map_of (relays p) (url relay) of
        Some existing \<Rightarrow> p
      | None \<Rightarrow> p\<lparr>relays := relays p @ [(url relay, relay)]\<rparr>)"

text \<open>
  \<open>assertSigner\<close>: without a signer, emit \<open>signer:required\<close> and throw; the result is the
  thrown message or a normal return, with the instance after the call.
\<close>

definition assertSigner :: "NDK \<Rightarrow> (string + unit) \<times> NDK" where
  "assertSigner n =
     (if signer n = None then
        (Inl ''Signer required'', n\<lparr>emitted := emitted n @ [SignerRequired]\<rparr>)
      else (Inr (), n))"

text \<open>
  \<open>Promise.allSettled\<close>: fulfils with the outcomes once every promise has settled,
  whether fulfilled or rejected; it never rejects.
\<close>

definition allSettled :: "'a promise list \<Rightarrow> 'a promise list promise" where
  "allSettled ps = (if Pending \<in> set ps then Pending else Resolved ps)"

text \<open>\<open>.then(() => {})\<close>: the handler ignores the value and cannot throw.\<close>

definition then_unit :: "'a promise \<Rightarrow> unit promise" where
  "then_unit p = (case p of Pending \<Rightarrow> Pending | Resolved v \<Rightarrow> Resolved () | Rejected e \<Rightarrow> Rejected e)"

text \<open>
  The first part of \<open>connect\<close>: with a signer and \<open>autoConnectUserRelays\<close>, the signer's
  relays are awaited and added to the pool. An awaited rejection rejects \<open>connect\<close>.
\<close>

definition connect_signer_relays :: "collaborators \<Rightarrow> NDK \<Rightarrow> NDK promise" where
  "connect_signer_relays C n =
     (case signer n of
        None \<Rightarrow> Resolved n
      | Some s \<Rightarrow>
          if autoConnectUserRelays n then
            (case signer_relays s of
               None \<Rightarrow> Resolved n
             | Some Pending \<Rightarrow> Pending
             | Some (Rejected e) \<Rightarrow> Rejected e
             | Some (Resolved rs) \<Rightarrow>
                 Resolved (n\<lparr>pool := foldl (\<lambda>p relay. addRelay C relay None p) (pool n) rs\<rparr>))
          else Resolved n)"

text \<open>
  \<open>connect\<close>: \<open>main\<close> and \<open>outbox\<close> are what \<open>pool.connect(timeoutMs)\<close> and
  \<open>outboxPool.connect(timeoutMs)\<close> settle to.
\<close>

definition connect :: "collaborators \<Rightarrow> NDK \<Rightarrow> unit promise \<Rightarrow> unit promise \<Rightarrow> unit promise \<times> NDK" where
  "connect C n main outbox =
     (case connect_signer_relays C n of
        Pending \<Rightarrow> (Pending, n)
      | Rejected e \<Rightarrow> (Rejected e, n)
      | Resolved n1 \<Rightarrow>
          (let connections = [main] @ (if outboxPool n1 \<noteq> None then [outbox] else [])
           in (then_unit (allSettled connections), n1)))"

section \<open>subscribe\<close>

text \<open>
  \<open>subscribe\<close>: the new subscription is added to the manager (a registry, here the list
  of what was added), the relays of an explicit relay set are marked as temporarily used,
  and with an outbox pool the authors of the filters are handed to the tracker.
\<close>

definition filter_authors :: "NDKFilter list \<Rightarrow> string list" where
  "filter_authors fs =
     concat (map (\<lambda>f. case authors f of None \<Rightarrow> [] | Some a \<Rightarrow> a)
               (filter (\<lambda>f. case authors f of None \<Rightarrow> False | Some a \<Rightarrow> length a > 0) fs))"

definition subscribe ::
  "collaborators \<Rightarrow> NDK \<Rightarrow> NDKFilter list \<Rightarrow> NDKSubscriptionOptions option \<Rightarrow>
   NDKRelaySet option \<Rightarrow> bool \<Rightarrow> NDKSubscription \<times> NDK" where
  "subscribe C n fs opts relaySet autoStart =
     (let subscription =
            \<lparr>filters = fs, sub_opts = opts, sub_relaySet = relaySet, start_scheduled = autoStart\<rparr>;
          n1 = n\<lparr>subManager := subManager n @ [subscription]\<rparr>;
          n2 = (case relaySet of
                  None \<Rightarrow> n1
                | Some rs \<Rightarrow>
                    n1\<lparr>pool := foldl (\<lambda>p relay. useTemporaryRelay C relay p) (pool n1) (set_relays rs)\<rparr>);
          n3 = (if outboxPool n2 \<noteq> None \<and> hasAuthorsFilter C subscription then
                  n2\<lparr>outboxTracker :=
                       (case outboxTracker n2 of
                          None \<Rightarrow> None
                        | Some tracked \<Rightarrow> Some (tracked @ filter_authors (filters subscription)))\<rparr>
                else n2)
      in (subscription, n3))"

section \<open>fetchEvent\<close>

datatype id_or_filter = IdString string | Filter NDKFilter

datatype relay_arg = OneRelay NDKRelay | ARelaySet NDKRelaySet

text \<open>The relay set \<open>fetchEvent\<close> subscribes with.\<close>

definition fetchEvent_relaySet ::
  "collaborators \<Rightarrow> NDK \<Rightarrow> id_or_filter \<Rightarrow> relay_arg option \<Rightarrow> NDKRelaySet option" where
  "fetchEvent_relaySet C n idOrFilter relaySetOrRelay =
     (let relaySet = (case relaySetOrRelay of
                        Some (OneRelay r) \<Rightarrow> Some (RelaySet [r])
                      | Some (ARelaySet rs) \<Rightarrow> Some rs
                      | None \<Rightarrow> None)
      in case idOrFilter of
           IdString s \<Rightarrow>
             if relaySetOrRelay = None then
               (if \<not> isNip33AValue C s then
                  (let rels = relaysFromBech32 C s
                   in if length rels > 0 then Some (correctRelaySet C (RelaySet rels) (pool n))
                      else relaySet)
                else relaySet)
             else relaySet
         | Filter f \<Rightarrow> relaySet)"

definition with_closeOnEose :: "NDKSubscriptionOptions option \<Rightarrow> NDKSubscriptionOptions" where
  "with_closeOnEose opts =
     (js_default opts \<lparr>closeOnEose = None, groupable = None\<rparr>)\<lparr>closeOnEose := Some True\<rparr>"

text \<open>
  The filter: derived from a string identifier, or the one given. \<open>None\<close> stands for a
  falsy value, which the guard \<open>if (!filter)\<close> tests for; a filter object is truthy, so
  neither branch yields it.
\<close>

definition fetchEvent_filter :: "collaborators \<Rightarrow> id_or_filter \<Rightarrow> NDKFilter option" where
  "fetchEvent_filter C idOrFilter =
     (case idOrFilter of IdString s \<Rightarrow> Some (filterFromId C s) | Filter f \<Rightarrow> Some f)"

text \<open>\<open>JSON.stringify(idOrFilter)\<close> in the error message of the guard.\<close>

definition stringify_arg :: "collaborators \<Rightarrow> id_or_filter \<Rightarrow> string" where
  "stringify_arg C idOrFilter = (case idOrFilter of IdString s \<Rightarrow> stringify C s | Filter f \<Rightarrow> [])"

text \<open>
  \<open>fetchEvent\<close>, with the signals \<open>sigs\<close> that reach its closures afterwards: the promise
  it returned, as settled by them, and the instance. A throw of the async function is a
  rejected promise.
\<close>

definition fetchEvent ::
  "collaborators \<Rightarrow> NDK \<Rightarrow> id_or_filter \<Rightarrow> NDKSubscriptionOptions option \<Rightarrow>
   relay_arg option \<Rightarrow> signal list \<Rightarrow> NDKEvent option promise \<times> NDK" where
  "fetchEvent C n idOrFilter opts relaySetOrRelay sigs =
     (let relaySet = fetchEvent_relaySet C n idOrFilter relaySetOrRelay;
          flt = fetchEvent_filter C idOrFilter
      in case flt of
           None \<Rightarrow> (Rejected (''Invalid filter: '' @ stringify_arg C idOrFilter), n)
         | Some f \<Rightarrow>
             (let (s, n1) = subscribe C n [f] (Some (with_closeOnEose opts)) relaySet False
              in (result (fetch_run (ndk_ref n) (replaceableKind C) fetch_init sigs), n1)))"

section \<open>fetchEvents\<close>

text \<open>A JavaScript \<open>Map\<close>: \<open>set\<close> on a present key replaces the value in place.\<close>

primrec Map_set :: "'k \<Rightarrow> 'v \<Rightarrow> ('k \<times> 'v) list \<Rightarrow> ('k \<times> 'v) list" where
  "Map_set k v [] = [(k, v)]"
| "Map_set k v (e # es) = (if fst e = k then (k, v) # es else e # Map_set k v es)"

text \<open>A JavaScript \<open>Set\<close> built from a sequence: each element once, in order of first insertion.\<close>

definition new_Set :: "'a list \<Rightarrow> 'a list" where
  "new_Set xs = foldl (\<lambda>s x. if x \<in> set s then s else s @ [x]) [] xs"

record fetchEvents_state =
  events :: "(string \<times> NDKEvent) list"
  set_result :: "NDKEvent list promise"

definition onEvent :: "collaborators \<Rightarrow> nat \<Rightarrow> NDKEvent \<Rightarrow> fetchEvents_state \<Rightarrow> fetchEvents_state" where
  "onEvent C this ev st =
     (let dedupKey = deduplicationKey C ev;
          existingEvent = map_of (events st) dedupKey;
          event = (case existingEvent of Some existing \<Rightarrow> dedupEvent C existing ev | None \<Rightarrow> ev);
          event1 = event\<lparr>ndk := Some this\<rparr>
      in st\<lparr>events := Map_set dedupKey event1 (events st)\<rparr>)"

fun handle_events :: "collaborators \<Rightarrow> nat \<Rightarrow> fetchEvents_state \<Rightarrow> signal \<Rightarrow> fetchEvents_state" where
  "handle_events C this st (Event ev) = onEvent C this ev st"
| "handle_events C this st (EventDup ev) = onEvent C this ev st"
| "handle_events C this st Eose =
     (if set_result st = Pending then st\<lparr>set_result := Resolved (new_Set (map snd (events st)))\<rparr>
      else st)"
| "handle_events C this st Timeout = st"
| "handle_events C this st Tick = st"

definition fetchEvents ::
  "collaborators \<Rightarrow> NDK \<Rightarrow> NDKFilter list \<Rightarrow> NDKSubscriptionOptions option \<Rightarrow>
   NDKRelaySet option \<Rightarrow> signal list \<Rightarrow> NDKEvent list promise \<times> NDK" where
  "fetchEvents C n fs opts relaySet sigs =
     (let (s, n1) = subscribe C n fs (Some (with_closeOnEose opts)) relaySet False
      in (set_result (foldl (handle_events C (ndk_ref n)) \<lparr>events = [], set_result = Pending\<rparr> sigs),
          n1))"

text \<open>The events a sequence of signals delivers to \<open>onEvent\<close>.\<close>

fun delivered :: "signal list \<Rightarrow> NDKEvent list" where
  "delivered [] = []"
| "delivered (Event ev # sigs) = ev # delivered sigs"
| "delivered (EventDup ev # sigs) = ev # delivered sigs"
| "delivered (_ # sigs) = delivered sigs"

section \<open>The cashu wallet: paying a lightning invoice\<close>

datatype wallet_emission = InsufficientBalance real string

text \<open>
  The wallet as \<open>payLn\<close> uses it: the balance per mint, what was emitted on it, the mints
  a payment was executed on, and the mints a history event was published for.
\<close>

record NDKCashuWallet =
  mintBalances :: "(string \<times> real) list"
  wallet_emitted :: "wallet_emission list"
  payments_executed :: "string list"
  history_published :: "string list"

text \<open>\<open>NDKCashuPay\<close>: the wallet, \<open>info.pr\<close>, and what \<open>getAmount()\<close> returns (msat).\<close>

record NDKCashuPay =
  wallet :: NDKCashuWallet
  info_pr :: "string option"
  getAmount :: real

text \<open>
  What the mint does, outside the sources: whether a wallet for the mint can be loaded, the
  amounts of its proofs, and how the \<open>try\<close> block of \<open>executePayment\<close> (melt quote,
  proof selection, melting, roll-over of the proofs) ends: an \<open>Error\<close> thrown, something
  else thrown, or a melt result with whether its quote is paid and its preimage.
\<close>

datatype melt_outcome = MeltError string | MeltThrown | Melted bool "string option"

record mint_env =
  walletForMint :: "string \<Rightarrow> bool"
  proofsForMint :: "string \<Rightarrow> real list"
  melt :: "string \<Rightarrow> melt_outcome"

datatype exec_result = Returned "string option" | Thrown string

definition getEligibleMints :: "(string \<times> real) list \<Rightarrow> real \<Rightarrow> string option \<Rightarrow> string list" where
  "getEligibleMints balances amount useMint =
     map fst
       (filter (\<lambda>(mint, balance).
            if (case useMint of None \<Rightarrow> False | Some u \<Rightarrow> u \<noteq> [] \<and> mint \<noteq> u) then False
            else if balance < amount then False
            else True) balances)"

definition handleInsufficientBalance ::
  "real \<Rightarrow> string \<Rightarrow> NDKCashuWallet \<Rightarrow> string promise \<times> NDKCashuWallet" where
  "handleInsufficientBalance amount p w =
     (Rejected ''no mint with sufficient balance found'',
      w\<lparr>wallet_emitted := wallet_emitted w @ [InsufficientBalance amount p]\<rparr>)"

definition executePayment ::
  "mint_env \<Rightarrow> string \<Rightarrow> real \<Rightarrow> NDKCashuWallet \<Rightarrow> exec_result \<times> NDKCashuWallet" where
  "executePayment E mint amount w0 =
     (let w = w0\<lparr>payments_executed := payments_executed w0 @ [mint]\<rparr> in
      if \<not> walletForMint E mint then (Thrown (''unable to load wallet for mint '' @ mint), w)
      else if sum_list (proofsForMint E mint) < amount then (Returned None, w)
      else (case melt E mint of
              MeltError m \<Rightarrow> (Thrown m, w)
            | MeltThrown \<Rightarrow> (Returned None, w)
            | Melted paid preimage \<Rightarrow>
                if paid \<and> preimage \<noteq> None \<and> preimage \<noteq> Some [] then
                  (Returned preimage, w\<lparr>history_published := history_published w @ [mint]\<rparr>)
                else (Returned preimage, w)))"

fun attemptPaymentWithEligibleMints ::
  "mint_env \<Rightarrow> string list \<Rightarrow> real \<Rightarrow> NDKCashuWallet \<Rightarrow> (string \<times> string) list \<Rightarrow>
   string promise \<times> NDKCashuWallet" where
  "attemptPaymentWithEligibleMints E [] amount w errors = (Rejected ''Failed to pay with any mint'', w)"
| "attemptPaymentWithEligibleMints E (mint # rest) amount w errors =
     (case executePayment E mint amount w of
        (Returned (Some r), w1) \<Rightarrow>
          if r \<noteq> [] then (Resolved r, w1)
          else attemptPaymentWithEligibleMints E rest amount w1 errors
      | (Returned None, w1) \<Rightarrow> attemptPaymentWithEligibleMints E rest amount w1 errors
      | (Thrown m, w1) \<Rightarrow> attemptPaymentWithEligibleMints E rest amount w1 (Map_set mint m errors))"

definition payLn :: "mint_env \<Rightarrow> NDKCashuPay \<Rightarrow> string option \<Rightarrow> string promise \<times> NDKCashuWallet" where
  "payLn E this useMint =
     (let balances = mintBalances (wallet this);
          amount = getAmount this / 1000
      in case info_pr this of
           None \<Rightarrow> (Rejected ''missing pr'', wallet this)
         | Some p \<Rightarrow>
             if p = [] then (Rejected ''missing pr'', wallet this)
             else
               (let eligibleMints = getEligibleMints balances amount useMint
                in if length eligibleMints = 0 then
                     handleInsufficientBalance amount p (wallet this)
                   else attemptPaymentWithEligibleMints E eligibleMints amount (wallet this) []))"

section \<open>Invariant of the event map\<close>

text \<open>
  The map of \<open>fetchEvents\<close> holds each key once, and under a key an event with that key.
\<close>

definition keyed :: "collaborators \<Rightarrow> (string \<times> NDKEvent) list \<Rightarrow> bool" where
  "keyed C m = (distinct (map fst m) \<and> (\<forall>p\<in>set m. deduplicationKey C (snd p) = fst p))"

section \<open>Sample inputs\<close>

text \<open>
  Concrete collaborators and inputs on which the functions above are evaluated: the
  sample takes kinds 0, 3 and 10000 to 19999 as replaceable (none as
  parameterized-replaceable), lets the dedup choice keep the newer copy, and takes a string
  identifier as an event id.
\<close>

definition sample_replaceable :: "nat \<Rightarrow> bool" where
  "sample_replaceable k = (k = 0 \<or> k = 3 \<or> (10000 \<le> k \<and> k < 20000))"

text \<open>The decimal digits of a number, as a template string prints it.\<close>

fun digits :: "nat \<Rightarrow> string" where
  "digits n =
     (if n < 10 then [''0123456789'' ! n]
      else digits (n div 10) @ [''0123456789'' ! (n mod 10)])"

declare digits.simps [simp del]

text \<open>
  Modelled from the spec: \<open>NDKEvent.deduplicationKey\<close> is not among the sources. The
  spec's dedup key is kind and author for a replaceable kind and the event's identity for
  every other kind.
\<close>

definition sample_deduplicationKey :: "NDKEvent \<Rightarrow> string" where
  "sample_deduplicationKey e =
     (if sample_replaceable (kind e) then digits (kind e) @ '':'' @ pubkey e else event_id e)"

definition sample_collaborators :: collaborators where
  "sample_collaborators =
     \<lparr>isNip33AValue = (\<lambda>s. False),
      relaysFromBech32 = (\<lambda>s. []),
      correctRelaySet = (\<lambda>rs p. rs),
      filterFromId = (\<lambda>s. \<lparr>ids = Some [s], authors = None, kinds = None,
                                since = None, until = None, limit = None\<rparr>),
      stringify = (\<lambda>s. [CHR 0x22] @ s @ [CHR 0x22]),
      replaceableKind = sample_replaceable,
      addRelay = pool_addRelay,
      useTemporaryRelay = (\<lambda>r p. p),
      relayUrl = (\<lambda>u. u),
      newPool = (\<lambda>urls blacklist heap.
                   (\<lparr>pool_name = [], relays = [], blacklistRelayUrls = blacklist\<rparr>, heap)),
      deduplicationKey = sample_deduplicationKey,
      dedupEvent = (\<lambda>a b. if created_at b < created_at a then a else b),
      hasAuthorsFilter = (\<lambda>s. filter_authors (filters s) \<noteq> [])\<rparr>"

definition sample_opts :: NDKConstructorParams where
  "sample_opts =
     \<lparr>opt_explicitRelayUrls = None, opt_blacklistRelayUrls = None, opt_outboxRelayUrls = None,
      opt_enableOutboxModel = None, opt_autoConnectUserRelays = None,
      opt_autoFetchUserMutelist = None, opt_signer = None, opt_mutedIds = None,
      opt_clientName = None, opt_clientNip89 = None, opt_signatureVerificationWorker = None,
      opt_validationRatio = None\<rparr>"

definition sample_ndk :: NDK where
  "sample_ndk = NDK_constructor sample_collaborators 0 0 sample_opts"

definition sample_filter :: NDKFilter where
  "sample_filter =
     \<lparr>ids = None, authors = Some [''p''], kinds = Some [10002],
      since = None, until = None, limit = None\<rparr>"

definition ev_a :: NDKEvent where
  "ev_a = \<lparr>event_id = ''a'', pubkey = ''p'', kind = 10002, created_at = 100, tags = [], ndk = None\<rparr>"

definition ev_b :: NDKEvent where
  "ev_b = \<lparr>event_id = ''b'', pubkey = ''p'', kind = 10002, created_at = 100, tags = [], ndk = None\<rparr>"

definition ev_c :: NDKEvent where
  "ev_c = \<lparr>event_id = ''c'', pubkey = ''p'', kind = 10002, created_at = 200, tags = [], ndk = None\<rparr>"

definition ev_note :: NDKEvent where
  "ev_note = \<lparr>event_id = ''n'', pubkey = ''p'', kind = 1, created_at = 50, tags = [], ndk = None\<rparr>"

definition sample_signer :: NDKSigner where
  "sample_signer = \<lparr>signer_ref = 7, signer_relays = None\<rparr>"

definition sample_wallet :: NDKCashuWallet where
  "sample_wallet =
     \<lparr>mintBalances = [(''https://mint.a'', 5), (''https://mint.b'', 20)],
      wallet_emitted = [], payments_executed = [], history_published = []\<rparr>"

definition sample_mint_env :: mint_env where
  "sample_mint_env =
     \<lparr>walletForMint = (\<lambda>m. True), proofsForMint = (\<lambda>m. [16, 4]),
      melt = (\<lambda>m. Melted True (Some ''preimage''))\<rparr>"


section \<open>Properties of fetchEvent\<close>

lemma fetchEvent_fst:
  "fetchEvent_filter C idOrFilter = Some f \<Longrightarrow>
   fst (fetchEvent C n idOrFilter opts rsr sigs) =
     result (fetch_run (ndk_ref n) (replaceableKind C) fetch_init sigs)"
  by (simp add: fetchEvent_def Let_def split: prod.splits)

lemma fetch_run_append:
  "fetch_run this rk st (xs @ ys) = fetch_run this rk (fetch_run this rk st xs) ys"
  by (simp add: fetch_run_def)

lemma fetch_run_Cons:
  "fetch_run this rk st (x # xs) = fetch_run this rk (handle this rk st x) xs"
  by (simp add: fetch_run_def)

lemma fetch_run_Nil: "fetch_run this rk st [] = st"
  by (simp add: fetch_run_def)

text \<open>Once settled, the promise keeps its value.\<close>

lemma handle_settled:
  "result st \<noteq> Pending \<Longrightarrow> result (handle this rk st x) = result st"
  by (cases x)
     (auto simp: on_event_def on_eose_def on_timeout_def resolve_def Let_def
           split: option.splits)

lemma fetch_run_settled:
  "result st \<noteq> Pending \<Longrightarrow> result (fetch_run this rk st sigs) = result st"
proof (induction sigs arbitrary: st)
  case Nil
  then show ?case by (simp add: fetch_run_Nil)
next
  case (Cons x xs)
  have "result (handle this rk st x) \<noteq> Pending"
    using Cons.prems by (simp add: handle_settled)
  then show ?case
    using Cons.IH [of "handle this rk st x"] Cons.prems
    by (simp add: fetch_run_Cons handle_settled)
qed

text \<open>With the timeout cleared, nothing stops the subscription any more.\<close>

lemma handle_cleared:
  "\<not> t2_armed st \<Longrightarrow>
   \<not> t2_armed (handle this rk st x) \<and> s_stopped (handle this rk st x) = s_stopped st"
  by (cases x)
     (auto simp: on_event_def on_eose_def on_timeout_def resolve_def Let_def
           split: option.splits)

lemma handle_cleared_t:
  "\<not> t_armed st \<Longrightarrow> \<not> t_armed (handle this rk st x)"
  by (cases x)
     (auto simp: on_event_def on_eose_def on_timeout_def resolve_def Let_def
           split: option.splits)

lemma fetch_run_cleared:
  "\<not> t2_armed st \<Longrightarrow>
   \<not> t2_armed (fetch_run this rk st sigs) \<and> s_stopped (fetch_run this rk st sigs) = s_stopped st"
proof (induction sigs arbitrary: st)
  case Nil
  then show ?case by (simp add: fetch_run_Nil)
next
  case (Cons x xs)
  from handle_cleared [OF Cons.prems, of this rk x]
  show ?case using Cons.IH [of "handle this rk st x"] by (simp add: fetch_run_Cons)
qed

lemma fetch_run_cleared_t:
  "\<not> t_armed st \<Longrightarrow> \<not> t_armed (fetch_run this rk st sigs)"
proof (induction sigs arbitrary: st)
  case Nil
  then show ?case by (simp add: fetch_run_Nil)
next
  case (Cons x xs)
  from handle_cleared_t [OF Cons.prems, of this rk x]
  show ?case using Cons.IH [of "handle this rk st x"] by (simp add: fetch_run_Cons)
qed

lemma fetch_run_ticks:
  "set pre \<subseteq> {Tick} \<Longrightarrow> fetch_run this rk st pre = st"
  by (induction pre arbitrary: st) (auto simp: fetch_run_Nil fetch_run_Cons)

text \<open>
  Claim C2, as amended. When the first event that arrives is not replaceable, the promise
  resolves with that event (bound to the instance) as soon as it arrives, and both timers
  are cleared; \<open>fetchEvent\<close> does not call \<open>s.stop()\<close> then or at any later signal:
  the subscription is left to close by its own \<open>closeOnEose\<close>.
\<close>

theorem fetchEvent_non_replaceable_first:
  assumes nr: "\<not> replaceableKind C (kind ev)"
    and flt: "fetchEvent_filter C idOrFilter = Some f"
    and pre: "set pre \<subseteq> {Tick}"
  shows "fst (fetchEvent C n idOrFilter opts rsr (pre @ Event ev # sigs)) =
           Resolved (Some (ev\<lparr>ndk := Some (ndk_ref n)\<rparr>)) \<and>
         \<not> t_armed (fetch_run (ndk_ref n) (replaceableKind C) fetch_init (pre @ Event ev # sigs)) \<and>
         \<not> t2_armed (fetch_run (ndk_ref n) (replaceableKind C) fetch_init (pre @ Event ev # sigs)) \<and>
         \<not> s_stopped (fetch_run (ndk_ref n) (replaceableKind C) fetch_init (pre @ Event ev # sigs))"
proof -
  let ?me = "ndk_ref n" and ?rk = "replaceableKind C"
  let ?st = "handle ?me ?rk fetch_init (Event ev)"
  have run: "fetch_run ?me ?rk fetch_init (pre @ Event ev # sigs) = fetch_run ?me ?rk ?st sigs"
    using pre by (simp add: fetch_run_append fetch_run_ticks fetch_run_Cons)
  have st: "result ?st = Resolved (Some (ev\<lparr>ndk := Some ?me\<rparr>))"
       "\<not> t_armed ?st" "\<not> t2_armed ?st" "\<not> s_stopped ?st"
    using nr by (simp_all add: on_event_def isReplaceable_def resolve_def fetch_init_def Let_def)
  have "result (fetch_run ?me ?rk ?st sigs) = result ?st"
    using st(1) by (intro fetch_run_settled) simp
  moreover have "\<not> t2_armed (fetch_run ?me ?rk ?st sigs)"
                "s_stopped (fetch_run ?me ?rk ?st sigs) = s_stopped ?st"
    using fetch_run_cleared [OF st(3), of ?me ?rk sigs] by simp_all
  moreover have "\<not> t_armed (fetch_run ?me ?rk ?st sigs)"
    by (rule fetch_run_cleared_t) (rule st)
  ultimately show ?thesis
    using st fetchEvent_fst [OF flt, of n opts rsr "pre @ Event ev # sigs"] run by simp
qed

text \<open>
  Witness for C2: a kind-1 note arriving after one tick of the progress interval.
\<close>

theorem fetchEvent_non_replaceable_first_witness:
  "fst (fetchEvent sample_collaborators sample_ndk (Filter sample_filter) None None
          ([Tick] @ Event ev_note # [Eose, Timeout])) =
     Resolved (Some (ev_note\<lparr>ndk := Some (ndk_ref sample_ndk)\<rparr>)) \<and>
   \<not> s_stopped (fetch_run (ndk_ref sample_ndk) (replaceableKind sample_collaborators) fetch_init
                 ([Tick] @ Event ev_note # [Eose, Timeout]))"
proof -
  have nr: "\<not> replaceableKind sample_collaborators (kind ev_note)"
    by (simp add: sample_collaborators_def sample_replaceable_def ev_note_def)
  have flt: "fetchEvent_filter sample_collaborators (Filter sample_filter) = Some sample_filter"
    by (simp add: fetchEvent_filter_def)
  have pre: "set [Tick] \<subseteq> {Tick}" by simp
  show ?thesis
    using fetchEvent_non_replaceable_first [OF nr flt pre, of sample_ndk None None "[Eose, Timeout]"]
    by simp
qed

text \<open>
  Counterexample to C2 as stated: right after a non-replaceable event has resolved the
  promise, \<open>s.stop()\<close> has not been called.
\<close>

theorem fetchEvent_no_stop_counterexample:
  "\<not> s_stopped (fetch_run 0 sample_replaceable fetch_init [Event ev_note]) \<and>
   result (fetch_run 0 sample_replaceable fetch_init [Event ev_note]) =
     Resolved (Some (ev_note\<lparr>ndk := Some 0\<rparr>))"
  by (simp add: fetch_run_def on_event_def isReplaceable_def resolve_def fetch_init_def
        sample_replaceable_def ev_note_def Let_def)


lemma handle_no_event:
  assumes "\<forall>ev. x \<noteq> Event ev" "fetchedEvent st = None" "result st = Pending" "t2_armed st"
  shows "fetchedEvent (handle this rk st x) = None \<and>
         (if x = Eose \<or> x = Timeout then result (handle this rk st x) = Resolved None
          else handle this rk st x = st)"
  using assms by (cases x) (auto simp: on_eose_def on_timeout_def resolve_def)

lemma fetch_run_no_event:
  assumes "\<forall>ev. Event ev \<notin> set sigs" "fetchedEvent st = None" "result st = Pending" "t2_armed st"
  shows "result (fetch_run this rk st sigs) =
           (if Eose \<in> set sigs \<or> Timeout \<in> set sigs then Resolved None else Pending)"
  using assms
proof (induction sigs arbitrary: st)
  case Nil
  then show ?case by (simp add: fetch_run_Nil)
next
  case (Cons x xs)
  have nx: "\<forall>ev. x \<noteq> Event ev" using Cons.prems(1) by auto
  note h = handle_no_event [OF nx Cons.prems(2,3,4), of this rk]
  show ?case
  proof (cases "x = Eose \<or> x = Timeout")
    case True
    then have "result (handle this rk st x) = Resolved None" using h by simp
    then have "result (fetch_run this rk (handle this rk st x) xs) = Resolved None"
      using fetch_run_settled [of "handle this rk st x" this rk xs] by simp
    then show ?thesis using True by (auto simp: fetch_run_Cons)
  next
    case False
    then have same: "handle this rk st x = st" using h by simp
    have "\<forall>ev. Event ev \<notin> set xs" using Cons.prems(1) by auto
    from Cons.IH [OF this Cons.prems(2,3,4)] same False
    show ?thesis by (auto simp: fetch_run_Cons)
  qed
qed

text \<open>
  Claim C4. The ten-second timeout is armed when the promise is created. When no event is
  ever delivered, the promise is resolved with \<open>null\<close> by the first end-of-stream or
  timeout among the signals, stays so whatever follows, and is pending only as long as
  neither has come; it is never rejected.
\<close>

theorem fetchEvent_not_found:
  assumes flt: "fetchEvent_filter C idOrFilter = Some f"
    and none: "\<forall>ev. Event ev \<notin> set sigs"
  shows "t2_armed fetch_init \<and>
         fst (fetchEvent C n idOrFilter opts rsr sigs) =
           (if Eose \<in> set sigs \<or> Timeout \<in> set sigs then Resolved None else Pending)"
proof -
  have "result (fetch_run (ndk_ref n) (replaceableKind C) fetch_init sigs) =
          (if Eose \<in> set sigs \<or> Timeout \<in> set sigs then Resolved None else Pending)"
    by (rule fetch_run_no_event [OF none]) (simp_all add: fetch_init_def)
  then show ?thesis
    using fetchEvent_fst [OF flt, of n opts rsr sigs] by (simp add: fetch_init_def)
qed

text \<open>
  Witness for C4: two ticks of the progress interval, then the timeout before the
  end-of-stream.
\<close>

theorem fetchEvent_not_found_witness:
  "fst (fetchEvent sample_collaborators sample_ndk (IdString ''note1xyz'') None None [Tick, Tick, Timeout, Eose]) =
     Resolved None"
proof -
  have flt: "fetchEvent_filter sample_collaborators (IdString ''note1xyz'') =
               Some \<lparr>ids = Some [''note1xyz''], authors = None, kinds = None,
                     since = None, until = None, limit = None\<rparr>"
    by (simp add: fetchEvent_filter_def sample_collaborators_def)
  have none: "\<forall>ev. Event ev \<notin> set [Tick, Tick, Timeout, Eose]" by simp
  show ?thesis
    using fetchEvent_not_found [OF flt none, of sample_ndk None None] by simp
qed






lemma fetchEvent_registers:
  "fetchEvent_filter C idOrFilter = Some f \<Longrightarrow>
   length (subManager (snd (fetchEvent C n idOrFilter opts rsr sigs))) = Suc (length (subManager n))"
  by (simp add: fetchEvent_def subscribe_def Let_def split: prod.splits option.splits)



lemma on_event_replaceable:
  assumes "rk (kind ev)"
  shows "on_event this rk ev st =
           (case fetchedEvent st of
              None \<Rightarrow> st\<lparr>fetchedEvent := Some (ev\<lparr>ndk := Some this\<rparr>)\<rparr>
            | Some c \<Rightarrow> if created_at c < created_at ev
                        then st\<lparr>fetchedEvent := Some (ev\<lparr>ndk := Some this\<rparr>)\<rparr> else st)"
  using assms by (simp add: on_event_def isReplaceable_def Let_def split: option.splits)

text \<open>
  Replaceable events delivered while a candidate \<open>c\<close> is held: either the candidate stays
  and nothing delivered is newer, or the final candidate is the first delivered event that
  no other one beats.
\<close>

lemma fetch_run_candidate:
  assumes "\<forall>e\<in>set es. rk (kind e)" "fetchedEvent st = Some c"
  shows "(fetch_run this rk st (map Event es) = st \<and> (\<forall>x\<in>set es. created_at x \<le> created_at c)) \<or>
         (\<exists>pre e post. es = pre @ e # post \<and> created_at c < created_at e \<and>
            (\<forall>x\<in>set pre. created_at x < created_at e) \<and>
            (\<forall>x\<in>set post. created_at x \<le> created_at e) \<and>
            fetch_run this rk st (map Event es) = st\<lparr>fetchedEvent := Some (e\<lparr>ndk := Some this\<rparr>)\<rparr>)"
  using assms
proof (induction es arbitrary: st c)
  case Nil
  then show ?case by (simp add: fetch_run_Nil)
next
  case (Cons x xs)
  have rx: "rk (kind x)" and rxs: "\<forall>e\<in>set xs. rk (kind e)" using Cons.prems(1) by simp_all
  let ?B = "x\<lparr>ndk := Some this\<rparr>"
  show ?case
  proof (cases "created_at c < created_at x")
    case True
    let ?st1 = "st\<lparr>fetchedEvent := Some ?B\<rparr>"
    have step: "handle this rk st (Event x) = ?st1"
      using True Cons.prems(2) by (simp add: on_event_replaceable [where rk = rk and ev = x, OF rx])
    have c1: "fetchedEvent ?st1 = Some ?B" by simp
    from Cons.IH [OF rxs c1]
    show ?thesis
    proof (elim disjE conjE exE)
      assume same: "fetch_run this rk ?st1 (map Event xs) = ?st1"
        and le: "\<forall>y\<in>set xs. created_at y \<le> created_at ?B"
      have "x # xs = [] @ x # xs \<and> created_at c < created_at x \<and>
            (\<forall>y\<in>set []. created_at y < created_at x) \<and>
            (\<forall>y\<in>set xs. created_at y \<le> created_at x) \<and>
            fetch_run this rk st (map Event (x # xs)) = st\<lparr>fetchedEvent := Some ?B\<rparr>"
        using True le same step by (simp add: fetch_run_Cons)
      then show ?thesis by blast
    next
      fix pre e post
      assume xs: "xs = pre @ e # post" and lt: "created_at ?B < created_at e"
        and p: "\<forall>y\<in>set pre. created_at y < created_at e"
        and q: "\<forall>y\<in>set post. created_at y \<le> created_at e"
        and run: "fetch_run this rk ?st1 (map Event xs) = ?st1\<lparr>fetchedEvent := Some (e\<lparr>ndk := Some this\<rparr>)\<rparr>"
      have "x # xs = (x # pre) @ e # post \<and> created_at c < created_at e \<and>
            (\<forall>y\<in>set (x # pre). created_at y < created_at e) \<and>
            (\<forall>y\<in>set post. created_at y \<le> created_at e) \<and>
            fetch_run this rk st (map Event (x # xs)) = st\<lparr>fetchedEvent := Some (e\<lparr>ndk := Some this\<rparr>)\<rparr>"
        using xs lt p q run True step by (simp add: fetch_run_Cons)
      then show ?thesis by blast
    qed
  next
    case False
    have step: "handle this rk st (Event x) = st"
      using False Cons.prems(2) by (simp add: on_event_replaceable [where rk = rk and ev = x, OF rx])
    from Cons.IH [OF rxs Cons.prems(2)]
    show ?thesis
    proof (elim disjE conjE exE)
      assume same: "fetch_run this rk st (map Event xs) = st"
        and le: "\<forall>y\<in>set xs. created_at y \<le> created_at c"
      then show ?thesis using False step by (simp add: fetch_run_Cons)
    next
      fix pre e post
      assume xs: "xs = pre @ e # post" and lt: "created_at c < created_at e"
        and p: "\<forall>y\<in>set pre. created_at y < created_at e"
        and q: "\<forall>y\<in>set post. created_at y \<le> created_at e"
        and run: "fetch_run this rk st (map Event xs) = st\<lparr>fetchedEvent := Some (e\<lparr>ndk := Some this\<rparr>)\<rparr>"
      have "x # xs = (x # pre) @ e # post \<and> created_at c < created_at e \<and>
            (\<forall>y\<in>set (x # pre). created_at y < created_at e) \<and>
            (\<forall>y\<in>set post. created_at y \<le> created_at e) \<and>
            fetch_run this rk st (map Event (x # xs)) = st\<lparr>fetchedEvent := Some (e\<lparr>ndk := Some this\<rparr>)\<rparr>"
        using xs lt p q run False step by (simp add: fetch_run_Cons)
      then show ?thesis by blast
    qed
  qed
qed

lemma fetch_run_first_newest:
  assumes repl: "\<forall>e\<in>set es. rk (kind e)" and ne: "es \<noteq> []"
  shows "\<exists>pre e post. es = pre @ e # post \<and>
            (\<forall>x\<in>set pre. created_at x < created_at e) \<and>
            (\<forall>x\<in>set post. created_at x \<le> created_at e) \<and>
            fetch_run this rk fetch_init (map Event es) =
              fetch_init\<lparr>fetchedEvent := Some (e\<lparr>ndk := Some this\<rparr>)\<rparr>"
proof -
  obtain x xs where es: "es = x # xs" using ne by (cases es) auto
  have rx: "rk (kind x)" and rxs: "\<forall>e\<in>set xs. rk (kind e)" using repl es by simp_all
  let ?B = "x\<lparr>ndk := Some this\<rparr>"
  let ?st1 = "fetch_init\<lparr>fetchedEvent := Some ?B\<rparr>"
  have step: "handle this rk fetch_init (Event x) = ?st1"
    by (simp add: on_event_replaceable [where rk = rk and ev = x, OF rx] fetch_init_def)
  have c1: "fetchedEvent ?st1 = Some ?B" by simp
  from fetch_run_candidate [OF rxs c1, of this]
  show ?thesis
  proof (elim disjE conjE exE)
    assume same: "fetch_run this rk ?st1 (map Event xs) = ?st1"
      and le: "\<forall>y\<in>set xs. created_at y \<le> created_at ?B"
    have "es = [] @ x # xs \<and> (\<forall>y\<in>set []. created_at y < created_at x) \<and>
          (\<forall>y\<in>set xs. created_at y \<le> created_at x) \<and>
          fetch_run this rk fetch_init (map Event es) = fetch_init\<lparr>fetchedEvent := Some ?B\<rparr>"
      using es le same step by (simp add: fetch_run_Cons)
    then show ?thesis by blast
  next
    fix pre e post
    assume xs: "xs = pre @ e # post" and lt: "created_at ?B < created_at e"
      and p: "\<forall>y\<in>set pre. created_at y < created_at e"
      and q: "\<forall>y\<in>set post. created_at y \<le> created_at e"
      and run: "fetch_run this rk ?st1 (map Event xs) = ?st1\<lparr>fetchedEvent := Some (e\<lparr>ndk := Some this\<rparr>)\<rparr>"
    have "es = (x # pre) @ e # post \<and>
          (\<forall>y\<in>set (x # pre). created_at y < created_at e) \<and>
          (\<forall>y\<in>set post. created_at y \<le> created_at e) \<and>
          fetch_run this rk fetch_init (map Event es) =
            fetch_init\<lparr>fetchedEvent := Some (e\<lparr>ndk := Some this\<rparr>)\<rparr>"
      using es xs lt p q run step by (simp add: fetch_run_Cons)
    then show ?thesis by blast
  qed
qed

text \<open>The candidate held when the first end-of-stream or timeout arrives is the result.\<close>

lemma fetch_run_finish:
  assumes "fin = Eose \<or> fin = Timeout"
  shows "result (fetch_run this rk (fetch_init\<lparr>fetchedEvent := c\<rparr>) (fin # rest)) = Resolved c"
proof -
  have "result (handle this rk (fetch_init\<lparr>fetchedEvent := c\<rparr>) fin) = Resolved c"
    using assms by (auto simp: on_eose_def on_timeout_def resolve_def fetch_init_def)
  then show ?thesis
    using fetch_run_settled [of "handle this rk (fetch_init\<lparr>fetchedEvent := c\<rparr>) fin" this rk rest]
    by (simp add: fetch_run_Cons)
qed

lemma fetchEvent_first_newest:
  assumes flt: "fetchEvent_filter C idOrFilter = Some f"
    and repl: "\<forall>e\<in>set es. replaceableKind C (kind e)"
    and ne: "es \<noteq> []"
    and fin: "fin = Eose \<or> fin = Timeout"
  shows "\<exists>pre e post. es = pre @ e # post \<and>
            (\<forall>x\<in>set pre. created_at x < created_at e) \<and>
            (\<forall>x\<in>set post. created_at x \<le> created_at e) \<and>
            fst (fetchEvent C n idOrFilter opts rsr (map Event es @ fin # rest)) =
              Resolved (Some (e\<lparr>ndk := Some (ndk_ref n)\<rparr>))"
proof -
  from fetch_run_first_newest [OF repl ne, of "ndk_ref n"]
  obtain pre e post where es: "es = pre @ e # post"
    and p: "\<forall>x\<in>set pre. created_at x < created_at e"
    and q: "\<forall>x\<in>set post. created_at x \<le> created_at e"
    and run: "fetch_run (ndk_ref n) (replaceableKind C) fetch_init (map Event es) =
                fetch_init\<lparr>fetchedEvent := Some (e\<lparr>ndk := Some (ndk_ref n)\<rparr>)\<rparr>"
    by blast
  have "fst (fetchEvent C n idOrFilter opts rsr (map Event es @ fin # rest)) =
          Resolved (Some (e\<lparr>ndk := Some (ndk_ref n)\<rparr>))"
    using fetchEvent_fst [OF flt, of n opts rsr "map Event es @ fin # rest"]
      fetch_run_finish [OF fin, of "ndk_ref n" "replaceableKind C" _ rest] run
    by (simp add: fetch_run_append)
  with es p q show ?thesis by blast
qed

text \<open>
  Claim C1, as amended. When only replaceable events are delivered before the first
  end-of-stream or timeout, \<open>fetchEvent\<close> resolves with the first-delivered event among
  those with the greatest creation timestamp: every event delivered before it is strictly
  older, every event delivered after it is no newer. There is no tie-break by event
  identity. The result is the same for every permutation of the arrival order when a
  single event carries the greatest timestamp.
\<close>

theorem fetchEvent_replaceable_newest:
  assumes flt: "fetchEvent_filter C idOrFilter = Some f"
    and repl: "\<forall>e\<in>set es. replaceableKind C (kind e)"
    and ne: "es \<noteq> []"
    and fin: "fin = Eose \<or> fin = Timeout"
  shows "(\<exists>pre e post. es = pre @ e # post \<and>
            (\<forall>x\<in>set pre. created_at x < created_at e) \<and>
            (\<forall>x\<in>set post. created_at x \<le> created_at e) \<and>
            fst (fetchEvent C n idOrFilter opts rsr (map Event es @ fin # rest)) =
              Resolved (Some (e\<lparr>ndk := Some (ndk_ref n)\<rparr>))) \<and>
         (\<forall>es' fin' rest'.
            mset es' = mset es \<and> (fin' = Eose \<or> fin' = Timeout) \<and>
            (\<forall>x\<in>set es. \<forall>y\<in>set es.
               (\<forall>z\<in>set es. created_at z \<le> created_at x) \<and>
               (\<forall>z\<in>set es. created_at z \<le> created_at y) \<longrightarrow> x = y) \<longrightarrow>
            fst (fetchEvent C n idOrFilter opts rsr (map Event es' @ fin' # rest')) =
            fst (fetchEvent C n idOrFilter opts rsr (map Event es @ fin # rest)))"
proof (intro conjI allI impI)
  show "\<exists>pre e post. es = pre @ e # post \<and>
            (\<forall>x\<in>set pre. created_at x < created_at e) \<and>
            (\<forall>x\<in>set post. created_at x \<le> created_at e) \<and>
            fst (fetchEvent C n idOrFilter opts rsr (map Event es @ fin # rest)) =
              Resolved (Some (e\<lparr>ndk := Some (ndk_ref n)\<rparr>))"
    by (rule fetchEvent_first_newest [OF flt repl ne fin])
next
  fix es' fin' rest'
  assume h: "mset es' = mset es \<and> (fin' = Eose \<or> fin' = Timeout) \<and>
            (\<forall>x\<in>set es. \<forall>y\<in>set es.
               (\<forall>z\<in>set es. created_at z \<le> created_at x) \<and>
               (\<forall>z\<in>set es. created_at z \<le> created_at y) \<longrightarrow> x = y)"
  then have ms: "mset es' = mset es" and fin': "fin' = Eose \<or> fin' = Timeout"
    and uniq: "\<forall>x\<in>set es. \<forall>y\<in>set es.
               (\<forall>z\<in>set es. created_at z \<le> created_at x) \<and>
               (\<forall>z\<in>set es. created_at z \<le> created_at y) \<longrightarrow> x = y"
    by simp_all
  have sets: "set es' = set es" using ms by (rule mset_eq_setD)
  have ne': "es' \<noteq> []" using ms ne by auto
  have repl': "\<forall>e\<in>set es'. replaceableKind C (kind e)" using repl sets by simp
  from fetchEvent_first_newest [OF flt repl ne fin, of n opts rsr rest]
  obtain pre e post where es: "es = pre @ e # post"
    and p: "\<forall>x\<in>set pre. created_at x < created_at e"
    and q: "\<forall>x\<in>set post. created_at x \<le> created_at e"
    and r: "fst (fetchEvent C n idOrFilter opts rsr (map Event es @ fin # rest)) =
              Resolved (Some (e\<lparr>ndk := Some (ndk_ref n)\<rparr>))"
    by blast
  from fetchEvent_first_newest [OF flt repl' ne' fin', of n opts rsr rest']
  obtain pre' e' post' where es': "es' = pre' @ e' # post'"
    and p': "\<forall>x\<in>set pre'. created_at x < created_at e'"
    and q': "\<forall>x\<in>set post'. created_at x \<le> created_at e'"
    and r': "fst (fetchEvent C n idOrFilter opts rsr (map Event es' @ fin' # rest')) =
              Resolved (Some (e'\<lparr>ndk := Some (ndk_ref n)\<rparr>))"
    by blast
  have emax: "\<forall>z\<in>set es. created_at z \<le> created_at e"
    using es p q by (auto intro: less_imp_le)
  have "\<forall>z\<in>set es'. created_at z \<le> created_at e'"
    using es' p' q' by (auto intro: less_imp_le)
  then have emax': "\<forall>z\<in>set es. created_at z \<le> created_at e'"
    using sets by simp
  have "e \<in> set es" "e' \<in> set es" using es es' sets by auto
  with uniq emax emax' have "e = e'" by blast
  with r r' show "fst (fetchEvent C n idOrFilter opts rsr (map Event es' @ fin' # rest')) =
            fst (fetchEvent C n idOrFilter opts rsr (map Event es @ fin # rest))"
    by simp
qed

text \<open>
  Counterexample to C1 as stated: two replaceable events of the same author and kind with
  the same creation timestamp and different ids. Delivered in one order the first is
  returned, in the other order the other one: the result depends on the arrival order and
  is in one of the two runs not the event with the greatest id.
\<close>

theorem fetchEvent_tie_counterexample:
  "fst (fetchEvent sample_collaborators sample_ndk (Filter sample_filter) None None
          [Event ev_a, Event ev_b, Eose]) = Resolved (Some (ev_a\<lparr>ndk := Some 0\<rparr>)) \<and>
   fst (fetchEvent sample_collaborators sample_ndk (Filter sample_filter) None None
          [Event ev_b, Event ev_a, Eose]) = Resolved (Some (ev_b\<lparr>ndk := Some 0\<rparr>)) \<and>
   created_at ev_a = created_at ev_b \<and> kind ev_a = kind ev_b \<and> pubkey ev_a = pubkey ev_b \<and>
   replaceableKind sample_collaborators (kind ev_a) \<and> event_id ev_a \<noteq> event_id ev_b"
proof -
  have flt: "fetchEvent_filter sample_collaborators (Filter sample_filter) = Some sample_filter"
    by (simp add: fetchEvent_filter_def)
  have r: "replaceableKind sample_collaborators = sample_replaceable"
    by (simp add: sample_collaborators_def)
  have n: "ndk_ref sample_ndk = 0"
    by (simp add: sample_ndk_def NDK_constructor_def Let_def set_signer_def sample_opts_def
          split: prod.splits)
  have a: "result (fetch_run 0 sample_replaceable fetch_init [Event ev_a, Event ev_b, Eose]) =
             Resolved (Some (ev_a\<lparr>ndk := Some 0\<rparr>))"
    by (simp add: fetch_run_def on_event_def on_eose_def isReplaceable_def resolve_def
          fetch_init_def sample_replaceable_def ev_a_def ev_b_def Let_def)
  have b: "result (fetch_run 0 sample_replaceable fetch_init [Event ev_b, Event ev_a, Eose]) =
             Resolved (Some (ev_b\<lparr>ndk := Some 0\<rparr>))"
    by (simp add: fetch_run_def on_event_def on_eose_def isReplaceable_def resolve_def
          fetch_init_def sample_replaceable_def ev_a_def ev_b_def Let_def)
  show ?thesis
    using a b by (simp add: fetchEvent_fst [OF flt] r n)
       (simp add: ev_a_def ev_b_def sample_replaceable_def)
qed

text \<open>
  Witness for C1: two arrival orders of an older and a newer replaceable event, one ended
  by the timeout and one by end-of-stream, give the same result.
\<close>

theorem fetchEvent_replaceable_newest_witness:
  "fst (fetchEvent sample_collaborators sample_ndk (Filter sample_filter) None None
          (map Event [ev_c, ev_a] @ Timeout # [])) =
   fst (fetchEvent sample_collaborators sample_ndk (Filter sample_filter) None None
          (map Event [ev_a, ev_c] @ Eose # [Tick]))"
proof -
  have flt: "fetchEvent_filter sample_collaborators (Filter sample_filter) = Some sample_filter"
    by (simp add: fetchEvent_filter_def)
  have repl: "\<forall>e\<in>set [ev_a, ev_c]. replaceableKind sample_collaborators (kind e)"
    by (simp add: sample_collaborators_def sample_replaceable_def ev_a_def ev_c_def)
  have ne: "[ev_a, ev_c] \<noteq> []" by simp
  have fin: "Eose = Eose \<or> Eose = Timeout" by simp
  have h: "mset [ev_c, ev_a] = mset [ev_a, ev_c] \<and> (Timeout = Eose \<or> Timeout = Timeout) \<and>
            (\<forall>x\<in>set [ev_a, ev_c]. \<forall>y\<in>set [ev_a, ev_c].
               (\<forall>z\<in>set [ev_a, ev_c]. created_at z \<le> created_at x) \<and>
               (\<forall>z\<in>set [ev_a, ev_c]. created_at z \<le> created_at y) \<longrightarrow> x = y)"
    by (simp add: ev_a_def ev_c_def)
  from fetchEvent_replaceable_newest [OF flt repl ne fin, of sample_ndk None None "[Tick]"] h
  show ?thesis by blast
qed


section \<open>Properties of fetchEvents\<close>

lemma Map_set_keys:
  "map fst (Map_set k v m) = (if k \<in> fst ` set m then map fst m else map fst m @ [k])"
  by (induction m) auto

lemma Map_set_entries: "set (Map_set k v m) \<subseteq> insert (k, v) (set m)"
  by (induction m) auto

lemma distinct_under_map: "distinct (map f xs) \<Longrightarrow> distinct xs"
  by (induction xs) auto

lemma new_Set_acc:
  "distinct (acc @ xs) \<Longrightarrow>
   foldl (\<lambda>s x. if x \<in> set s then s else s @ [x]) acc xs = acc @ xs"
  by (induction xs arbitrary: acc) auto

lemma new_Set_distinct: "distinct xs \<Longrightarrow> new_Set xs = xs"
  using new_Set_acc [of "[]" xs] by (simp add: new_Set_def)

lemma onEvent_keyed:
  assumes keep: "\<forall>a b. deduplicationKey C a = deduplicationKey C b \<longrightarrow>
                   deduplicationKey C (dedupEvent C a b) = deduplicationKey C b"
    and bind: "\<forall>e i. deduplicationKey C (e\<lparr>ndk := i\<rparr>) = deduplicationKey C e"
    and inv: "keyed C (events st)"
  shows "keyed C (events (onEvent C this ev st)) \<and>
         fst ` set (events (onEvent C this ev st)) =
           insert (deduplicationKey C ev) (fst ` set (events st)) \<and>
         set_result (onEvent C this ev st) = set_result st"
proof -
  let ?k = "deduplicationKey C ev"
  let ?e = "case map_of (events st) ?k of Some existing \<Rightarrow> dedupEvent C existing ev | None \<Rightarrow> ev"
  let ?e1 = "?e\<lparr>ndk := Some this\<rparr>"
  have ev: "events (onEvent C this ev st) = Map_set ?k ?e1 (events st)"
    and res: "set_result (onEvent C this ev st) = set_result st"
    by (simp_all add: onEvent_def Let_def)
  have key_e: "deduplicationKey C ?e = ?k"
  proof (cases "map_of (events st) ?k")
    case None
    then show ?thesis by simp
  next
    case (Some existing)
    then have "(?k, existing) \<in> set (events st)" by (rule map_of_SomeD)
    then have "deduplicationKey C existing = ?k" using inv by (auto simp: keyed_def)
    then show ?thesis using keep Some by simp
  qed
  then have key_e1: "deduplicationKey C ?e1 = ?k" using bind by simp
  have d: "distinct (map fst (Map_set ?k ?e1 (events st)))"
    using inv by (simp add: Map_set_keys keyed_def)
  have v: "\<forall>p\<in>set (Map_set ?k ?e1 (events st)). deduplicationKey C (snd p) = fst p"
  proof
    fix p assume "p \<in> set (Map_set ?k ?e1 (events st))"
    then have "p = (?k, ?e1) \<or> p \<in> set (events st)"
      using Map_set_entries [of ?k ?e1 "events st"] by auto
    then show "deduplicationKey C (snd p) = fst p"
      using key_e1 inv by (auto simp: keyed_def)
  qed
  have "fst ` set (Map_set ?k ?e1 (events st)) = insert ?k (fst ` set (events st))"
    using Map_set_keys [of ?k ?e1 "events st"]
    by (metis (no_types, lifting) insert_absorb list.set_map set_append list.simps(15)
          Un_insert_right sup_bot.right_neutral empty_set)
  with d v ev res show ?thesis by (simp add: keyed_def)
qed

lemma handle_events_keyed:
  assumes keep: "\<forall>a b. deduplicationKey C a = deduplicationKey C b \<longrightarrow>
                   deduplicationKey C (dedupEvent C a b) = deduplicationKey C b"
    and bind: "\<forall>e i. deduplicationKey C (e\<lparr>ndk := i\<rparr>) = deduplicationKey C e"
    and inv: "keyed C (events st)"
    and noeose: "Eose \<notin> set sigs"
  shows "keyed C (events (foldl (handle_events C this) st sigs)) \<and>
         fst ` set (events (foldl (handle_events C this) st sigs)) =
           fst ` set (events st) \<union> deduplicationKey C ` set (delivered sigs) \<and>
         set_result (foldl (handle_events C this) st sigs) = set_result st"
  using inv noeose
proof (induction sigs arbitrary: st)
  case Nil
  then show ?case by simp
next
  case (Cons x xs)
  have nx: "Eose \<notin> set xs" and xe: "x \<noteq> Eose" using Cons.prems(2) by auto
  show ?case
  proof (cases x)
    case (Event ev)
    from onEvent_keyed [OF keep bind Cons.prems(1), of this ev]
    have k: "keyed C (events (onEvent C this ev st))"
      and f: "fst ` set (events (onEvent C this ev st)) =
                insert (deduplicationKey C ev) (fst ` set (events st))"
      and r: "set_result (onEvent C this ev st) = set_result st" by simp_all
    from Cons.IH [OF k nx] f r Event show ?thesis by auto
  next
    case (EventDup ev)
    from onEvent_keyed [OF keep bind Cons.prems(1), of this ev]
    have k: "keyed C (events (onEvent C this ev st))"
      and f: "fst ` set (events (onEvent C this ev st)) =
                insert (deduplicationKey C ev) (fst ` set (events st))"
      and r: "set_result (onEvent C this ev st) = set_result st" by simp_all
    from Cons.IH [OF k nx] f r EventDup show ?thesis by auto
  next
    case Eose
    then show ?thesis using xe by simp
  next
    case Timeout
    then show ?thesis using Cons.IH [OF Cons.prems(1) nx] by simp
  next
    case Tick
    then show ?thesis using Cons.IH [OF Cons.prems(1) nx] by simp
  qed
qed

lemma handle_events_settled:
  "set_result st \<noteq> Pending \<Longrightarrow>
   set_result (foldl (handle_events C this) st sigs) = set_result st"
proof (induction sigs arbitrary: st)
  case Nil
  then show ?case by simp
next
  case (Cons x xs)
  have "set_result (handle_events C this st x) = set_result st"
    using Cons.prems by (cases x) (simp_all add: onEvent_def Let_def)
  then show ?case using Cons.IH [of "handle_events C this st x"] Cons.prems by simp
qed

lemma fetchEvents_fst:
  "fst (fetchEvents C n fs opts rs sigs) =
     set_result (foldl (handle_events C (ndk_ref n)) \<lparr>events = [], set_result = Pending\<rparr> sigs)"
  by (simp add: fetchEvents_def Let_def split: prod.splits)

text \<open>
  Claim C3. The set \<open>fetchEvents\<close> resolves with at end-of-stream has exactly one
  element per dedup key delivered (through \<open>"event"\<close> or \<open>"event:dup"\<close>) before it:
  the keys of its elements are pairwise different and are exactly the delivered keys, so its
  size is the number of distinct keys. The dedup choice is assumed to keep the key of the
  same-key copies it chooses from, and binding an event to the instance not to change its
  key.
\<close>

theorem fetchEvents_one_per_key:
  assumes keep: "\<forall>a b. deduplicationKey C a = deduplicationKey C b \<longrightarrow>
                   deduplicationKey C (dedupEvent C a b) = deduplicationKey C b"
    and bind: "\<forall>e i. deduplicationKey C (e\<lparr>ndk := i\<rparr>) = deduplicationKey C e"
    and noeose: "Eose \<notin> set sigs"
  shows "\<exists>S. fst (fetchEvents C n fs opts rs (sigs @ Eose # rest)) = Resolved S \<and>
             distinct (map (deduplicationKey C) S) \<and>
             set (map (deduplicationKey C) S) = deduplicationKey C ` set (delivered sigs) \<and>
             length S = card (deduplicationKey C ` set (delivered sigs))"
proof -
  let ?st0 = "\<lparr>events = [], set_result = Pending\<rparr>"
  let ?h = "handle_events C (ndk_ref n)"
  let ?st1 = "foldl ?h ?st0 sigs"
  let ?S = "map snd (events ?st1)"
  have inv0: "keyed C (events ?st0)" by (simp add: keyed_def)
  from handle_events_keyed [OF keep bind inv0 noeose, of "ndk_ref n"]
  have k: "keyed C (events ?st1)"
    and f: "fst ` set (events ?st1) = deduplicationKey C ` set (delivered sigs)"
    and r: "set_result ?st1 = Pending" by simp_all
  have keys: "map (deduplicationKey C) ?S = map fst (events ?st1)"
    using k by (simp add: keyed_def)
  have dk: "distinct (map (deduplicationKey C) ?S)"
    unfolding keys using k by (simp add: keyed_def)
  then have dS: "distinct ?S" by (rule distinct_under_map)
  have step: "set_result (?h ?st1 Eose) = Resolved ?S"
    using r dS by (simp add: new_Set_distinct)
  have "set_result (foldl ?h (?h ?st1 Eose) rest) = Resolved ?S"
    using handle_events_settled [of "?h ?st1 Eose" C "ndk_ref n" rest] step by simp
  then have res: "fst (fetchEvents C n fs opts rs (sigs @ Eose # rest)) = Resolved ?S"
    by (simp add: fetchEvents_fst)
  have ks: "set (map (deduplicationKey C) ?S) = deduplicationKey C ` set (delivered sigs)"
    using keys f by (metis list.set_map)
  have "length ?S = card (set (map (deduplicationKey C) ?S))"
    using dk distinct_card [of "map (deduplicationKey C) ?S"] by simp
  with res dk ks show ?thesis by (metis (no_types, lifting))
qed

text \<open>
  Witness for C3: five deliveries on two keys (three replaceable events of one author and
  kind, one of them delivered twice, and a note) give a set of two.
\<close>

theorem fetchEvents_one_per_key_witness:
  "\<exists>S. fst (fetchEvents sample_collaborators sample_ndk [sample_filter] None None
               ([Event ev_a, EventDup ev_a, Event ev_b, Event ev_note, Event ev_c] @ Eose # [Event ev_c])) =
           Resolved S \<and>
       length S = 2"
proof -
  have keep: "\<forall>a b. deduplicationKey sample_collaborators a = deduplicationKey sample_collaborators b \<longrightarrow>
      deduplicationKey sample_collaborators (dedupEvent sample_collaborators a b) =
      deduplicationKey sample_collaborators b"
    by (simp add: sample_collaborators_def)
  have bind: "\<forall>e i. deduplicationKey sample_collaborators (e\<lparr>ndk := i\<rparr>) =
      deduplicationKey sample_collaborators e"
    by (simp add: sample_collaborators_def sample_deduplicationKey_def)
  have noeose: "Eose \<notin> set [Event ev_a, EventDup ev_a, Event ev_b, Event ev_note, Event ev_c]"
    by simp
  have k: "sample_deduplicationKey ev_a = ''10002:p''" "sample_deduplicationKey ev_b = ''10002:p''"
    "sample_deduplicationKey ev_c = ''10002:p''" "sample_deduplicationKey ev_note = ''n''"
    by (simp_all add: sample_deduplicationKey_def sample_replaceable_def digits.simps
          ev_a_def ev_b_def ev_c_def ev_note_def)
  have c: "card (deduplicationKey sample_collaborators `
             set (delivered [Event ev_a, EventDup ev_a, Event ev_b, Event ev_note, Event ev_c])) = 2"
  proof -
    have "deduplicationKey sample_collaborators `
            set (delivered [Event ev_a, EventDup ev_a, Event ev_b, Event ev_note, Event ev_c]) =
          {''10002:p'', ''n''}"
      by (auto simp: sample_collaborators_def k)
    then show ?thesis by simp
  qed
  from fetchEvents_one_per_key [OF keep bind noeose, of sample_ndk "[sample_filter]" None None "[Event ev_c]"]
  show ?thesis using c by auto
qed


section \<open>Properties of connect, addExplicitRelay, the constructor and assertSigner\<close>

lemma allSettled_settled:
  "Pending \<notin> set ps \<Longrightarrow> then_unit (allSettled ps) = Resolved ()"
  by (simp add: allSettled_def then_unit_def)

text \<open>
  Claim C5. Once the two pool-level connects have settled, \<open>connect\<close> yields what it
  yields when both succeed, whether they failed or not; and whenever the preceding lookup
  of the signer's relays did not itself fail, that is a normal resolution.
\<close>

theorem connect_absorbs_pool_failures:
  assumes "main \<noteq> Pending" and "outbox \<noteq> Pending"
  shows "fst (connect C n main outbox) = fst (connect C n (Resolved ()) (Resolved ())) \<and>
         (\<forall>n1. connect_signer_relays C n = Resolved n1 \<longrightarrow>
                connect C n main outbox = (Resolved (), n1))"
  using assms
  by (auto simp: connect_def allSettled_def then_unit_def Let_def split: promise.splits)

text \<open>
  Witness for C5: both the main pool and the outbox pool fail to connect.
\<close>

theorem connect_absorbs_pool_failures_witness:
  "connect sample_collaborators (sample_ndk\<lparr>outboxPool := Some (pool sample_ndk)\<rparr>)
     (Rejected ''connection refused'') (Rejected ''timed out'') =
   (Resolved (), sample_ndk\<lparr>outboxPool := Some (pool sample_ndk)\<rparr>)"
proof -
  have m: "(Rejected ''connection refused'' :: unit promise) \<noteq> Pending"
    and ob: "(Rejected ''timed out'' :: unit promise) \<noteq> Pending" by simp_all
  have s: "connect_signer_relays sample_collaborators (sample_ndk\<lparr>outboxPool := Some (pool sample_ndk)\<rparr>) =
             Resolved (sample_ndk\<lparr>outboxPool := Some (pool sample_ndk)\<rparr>)"
    by (simp add: connect_signer_relays_def sample_ndk_def NDK_constructor_def Let_def
          set_signer_def sample_opts_def split: prod.splits)
  from connect_absorbs_pool_failures [OF m ob, of sample_collaborators
         "sample_ndk\<lparr>outboxPool := Some (pool sample_ndk)\<rparr>"] s
  show ?thesis by blast
qed

text \<open>
  Claim C6, as amended. \<open>addExplicitRelay\<close> returns the relay it handed to the pool's
  \<open>addRelay\<close>: for a string a newly constructed relay (a new object at every call), for a
  relay the argument itself. It pushes that relay's url on \<open>explicitRelayUrls\<close>. Two calls
  with the same URL string return two different objects.
\<close>

theorem addExplicitRelay_returns_own_relay:
  "fst (addExplicitRelay C (Url u) policy con n) =
     \<lparr>relay_ref = next_ref n, url = relayUrl C u, authPolicy = policy\<rparr> \<and>
   fst (addExplicitRelay C (Relay r) policy con n) = r \<and>
   pool (snd (addExplicitRelay C arg policy con n)) =
     addRelay C (fst (addExplicitRelay C arg policy con n)) (Some con) (pool n) \<and>
   explicitRelayUrls (snd (addExplicitRelay C arg policy con n)) =
     explicitRelayUrls n @ [url (fst (addExplicitRelay C arg policy con n))] \<and>
   relay_ref (fst (addExplicitRelay C (Url u) policy2 con2
                     (snd (addExplicitRelay C (Url u) policy con n)))) \<noteq>
   relay_ref (fst (addExplicitRelay C (Url u) policy con n))"
  by (cases arg) (simp_all add: addExplicitRelay_def new_NDKRelay_def Let_def)

text \<open>
  Counterexample to C6 as stated: two calls with the same URL return different objects,
  and with a pool that reuses the instance it holds for a URL, the second call returns an
  object that is not the pool's instance.
\<close>

theorem addExplicitRelay_same_url_counterexample:
  "fst (addExplicitRelay sample_collaborators (Url ''wss://relay.example/'') None True
          (snd (addExplicitRelay sample_collaborators (Url ''wss://relay.example/'') None True sample_ndk)))
   \<noteq> fst (addExplicitRelay sample_collaborators (Url ''wss://relay.example/'') None True sample_ndk) \<and>
   map_of (relays (pool (snd (addExplicitRelay sample_collaborators (Url ''wss://relay.example/'') None True
          (snd (addExplicitRelay sample_collaborators (Url ''wss://relay.example/'') None True sample_ndk))))))
     ''wss://relay.example/'' =
   Some (fst (addExplicitRelay sample_collaborators (Url ''wss://relay.example/'') None True sample_ndk))"
  by (simp add: addExplicitRelay_def new_NDKRelay_def Let_def sample_collaborators_def
        pool_addRelay_def sample_ndk_def NDK_constructor_def set_signer_def sample_opts_def
        js_default_def js_or_number_def DEFAULT_BLACKLISTED_RELAYS_def)

text \<open>
  Claim C7 at the input \<open>validationRatio = 0\<close>: the constructed instance has ratio 1,
  not 0.
\<close>

theorem constructor_validationRatio_zero:
  "validationRatio (NDK_constructor sample_collaborators 0 0
      (sample_opts\<lparr>opt_validationRatio := Some 0\<rparr>)) = 1"
  by (simp add: NDK_constructor_def Let_def set_signer_def sample_opts_def js_or_number_def
        split: prod.splits)

lemma constructor_validationRatio:
  "validationRatio (NDK_constructor C ref heap opts) =
     (case opt_validationRatio opts of None \<Rightarrow> 1 | Some r \<Rightarrow> if r = 0 then 1 else r)"
  by (simp add: NDK_constructor_def Let_def set_signer_def js_or_number_def
        split: prod.splits option.splits)

text \<open>
  Claim C8. \<open>assertSigner\<close> throws "Signer required" exactly when no signer is
  configured; in that case \<open>signer:required\<close> has been emitted (and nothing else changed);
  with a signer it returns normally and leaves the instance, its emissions included, as it
  was.
\<close>

theorem assertSigner_iff:
  "(fst (assertSigner n) = Inl ''Signer required'') = (signer n = None) \<and>
   (signer n = None \<longrightarrow>
      snd (assertSigner n) = n\<lparr>emitted := emitted n @ [SignerRequired]\<rparr>) \<and>
   (signer n \<noteq> None \<longrightarrow> assertSigner n = (Inr (), n))"
  by (simp add: assertSigner_def)

text \<open>
  Witness for C8: an instance without a signer, and the same instance with one.
\<close>

theorem assertSigner_iff_witness:
  "assertSigner sample_ndk =
     (Inl ''Signer required'', sample_ndk\<lparr>emitted := emitted sample_ndk @ [SignerRequired]\<rparr>) \<and>
   assertSigner (sample_ndk\<lparr>signer := Some sample_signer\<rparr>) =
     (Inr (), sample_ndk\<lparr>signer := Some sample_signer\<rparr>)"
proof -
  have a: "signer sample_ndk = None"
    by (simp add: sample_ndk_def NDK_constructor_def Let_def set_signer_def sample_opts_def
          split: prod.splits)
  have b: "signer (sample_ndk\<lparr>signer := Some sample_signer\<rparr>) \<noteq> None" by simp
  from assertSigner_iff [of sample_ndk] assertSigner_iff [of "sample_ndk\<lparr>signer := Some sample_signer\<rparr>"] a b
  show ?thesis by (metis prod.collapse)
qed

section \<open>Properties of payLn\<close>

lemma getEligibleMints_empty:
  assumes "(\<forall>p\<in>set balances. snd p < amount) \<or>
           (\<exists>u. useMint = Some u \<and> u \<noteq> [] \<and> (\<forall>p\<in>set balances. fst p = u \<longrightarrow> snd p < amount))"
  shows "getEligibleMints balances amount useMint = []"
  using assms
  by (auto simp: getEligibleMints_def filter_empty_conv split: option.splits)

text \<open>
  Claim C10, as amended. For a call whose payment info has a non-empty payment request:
  when no mint has a balance of at least the amount, or a non-empty \<open>useMint\<close> is given
  and that mint has not, \<open>payLn\<close> emits \<open>insufficient_balance\<close> with the amount (in
  sat) and the payment request on the wallet, rejects with "no mint with sufficient balance
  found", and executes no payment.
\<close>

theorem payLn_insufficient_balance:
  assumes pr: "info_pr this = Some p" "p \<noteq> []"
    and low: "(\<forall>mb\<in>set (mintBalances (wallet this)). snd mb < getAmount this / 1000) \<or>
              (\<exists>u. useMint = Some u \<and> u \<noteq> [] \<and>
                 (\<forall>mb\<in>set (mintBalances (wallet this)). fst mb = u \<longrightarrow> snd mb < getAmount this / 1000))"
  shows "payLn E this useMint =
           (Rejected ''no mint with sufficient balance found'',
            (wallet this)\<lparr>wallet_emitted :=
               wallet_emitted (wallet this) @ [InsufficientBalance (getAmount this / 1000) p]\<rparr>) \<and>
         payments_executed (snd (payLn E this useMint)) = payments_executed (wallet this)"
  using pr getEligibleMints_empty [OF low]
  by (simp add: payLn_def handleInsufficientBalance_def Let_def)

text \<open>
  Witness for C10: 30 sat to pay from mints holding 5 and 20 sat.
\<close>

theorem payLn_insufficient_balance_witness:
  "payLn sample_mint_env \<lparr>wallet = sample_wallet, info_pr = Some ''lnbc1'', getAmount = 30000\<rparr> None =
     (Rejected ''no mint with sufficient balance found'',
      sample_wallet\<lparr>wallet_emitted := [InsufficientBalance 30 ''lnbc1'']\<rparr>) \<and>
   payLn sample_mint_env \<lparr>wallet = sample_wallet, info_pr = Some ''lnbc1'', getAmount = 10000\<rparr>
      (Some ''https://mint.a'') =
     (Rejected ''no mint with sufficient balance found'',
      sample_wallet\<lparr>wallet_emitted := [InsufficientBalance 10 ''lnbc1'']\<rparr>)"
proof -
  let ?t1 = "\<lparr>wallet = sample_wallet, info_pr = Some ''lnbc1'', getAmount = 30000\<rparr>"
  let ?t2 = "\<lparr>wallet = sample_wallet, info_pr = Some ''lnbc1'', getAmount = 10000\<rparr>"
  have p1: "info_pr ?t1 = Some ''lnbc1''" and p2: "info_pr ?t2 = Some ''lnbc1''"
    and ne: "''lnbc1'' \<noteq> []" by simp_all
  have l1: "(\<forall>mb\<in>set (mintBalances (wallet ?t1)). snd mb < getAmount ?t1 / 1000) \<or>
              (\<exists>u. None = Some u \<and> u \<noteq> [] \<and>
                 (\<forall>mb\<in>set (mintBalances (wallet ?t1)). fst mb = u \<longrightarrow> snd mb < getAmount ?t1 / 1000))"
    by (simp add: sample_wallet_def)
  have l2: "(\<forall>mb\<in>set (mintBalances (wallet ?t2)). snd mb < getAmount ?t2 / 1000) \<or>
              (\<exists>u. Some ''https://mint.a'' = Some u \<and> u \<noteq> [] \<and>
                 (\<forall>mb\<in>set (mintBalances (wallet ?t2)). fst mb = u \<longrightarrow> snd mb < getAmount ?t2 / 1000))"
    by (simp add: sample_wallet_def)
  from payLn_insufficient_balance [OF p1 ne l1, of sample_mint_env]
       payLn_insufficient_balance [OF p2 ne l2, of sample_mint_env]
  show ?thesis by (simp add: sample_wallet_def)
qed

text \<open>
  Counterexample to C10 as stated: with an empty payment request and no mint with
  sufficient balance, \<open>payLn\<close> rejects with "missing pr" and emits nothing.
\<close>

theorem payLn_missing_pr_counterexample:
  "payLn sample_mint_env \<lparr>wallet = sample_wallet, info_pr = Some [], getAmount = 30000\<rparr> None =
     (Rejected ''missing pr'', sample_wallet) \<and>
   getEligibleMints (mintBalances sample_wallet) (30000 / 1000) None = [] \<and>
   wallet_emitted sample_wallet = []"
  by (simp add: payLn_def sample_wallet_def getEligibleMints_def)

end
